theory Spec2Isabelle
  imports Main "HOL-Library.Sublist" "HOL-Library.Word"
begin

section \<open>Python strings, lists and dictionaries as the plugin uses them\<close>

text \<open>
  A Python \<open>str\<close> is a sequence of Unicode code points. The model covers the strings
  whose code points are below 256, one \<open>char\<close> per code point; \<open>codepoint\<close> is
  Python's \<open>ord\<close>. The character classes below are those of CPython's Unicode
  database restricted to that range. The texts of the keyword search are modelled over
  a wider range, described with \<open>lower\<close>.
\<close>

definition codepoint :: "char \<Rightarrow> nat" where
  "codepoint c = of_char c"

definition codepoints :: "string \<Rightarrow> nat list" where
  "codepoints s = map codepoint s"

definition ESC :: char where
  "ESC = CHR 0x1B"

definition NL :: char where
  "NL = CHR 0x0A"

text \<open>
  The whitespace that \<open>str.strip\<close> and \<open>str.rstrip\<close> remove when called with no
  argument: TAB, LF, VT, FF, CR, the separators 0x1C to 0x1F, SPACE, NEL (0x85) and the
  no-break space (0xA0).
\<close>

definition is_space :: "char \<Rightarrow> bool" where
  "is_space c =
     (let n = codepoint c
      in (9 \<le> n \<and> n \<le> 13) \<or> (28 \<le> n \<and> n \<le> 32) \<or> n = 133 \<or> n = 160)"

definition strip :: "string \<Rightarrow> string" where
  "strip s = rev (dropWhile is_space (rev (dropWhile is_space s)))"

definition rstrip :: "string \<Rightarrow> string" where
  "rstrip s = rev (dropWhile is_space (rev s))"

text \<open>
  \<open>str.isdigit\<close> accepts the decimal digits 0 to 9 and also the superscript digits
  (0xB2, 0xB3 and 0xB9 in this range); the empty string is not a digit string.
\<close>

definition is_decimal :: "char \<Rightarrow> bool" where
  "is_decimal c = (let n = codepoint c in 48 \<le> n \<and> n \<le> 57)"

definition char_isdigit :: "char \<Rightarrow> bool" where
  "char_isdigit c =
     (let n = codepoint c in (48 \<le> n \<and> n \<le> 57) \<or> n = 178 \<or> n = 179 \<or> n = 185)"

definition isdigit :: "string \<Rightarrow> bool" where
  "isdigit s = (s \<noteq> [] \<and> list_all char_isdigit s)"

datatype error = ValueError

definition digit_val :: "char \<Rightarrow> nat" where
  "digit_val c = codepoint c - 48"

text \<open>
  \<open>int(s)\<close> in base 10. The source calls it only on strings for which \<open>isdigit\<close>
  holds; on those it succeeds exactly when every character is one of 0 to 9 and raises
  ValueError on a superscript digit. Python integers are unbounded, but the conversion
  refuses a string of more than \<open>sys.int_max_str_digits\<close> characters, 4300 unless the
  interpreter is configured otherwise, with ValueError.
\<close>

definition int_max_str_digits :: nat where
  "int_max_str_digits = 4300"

definition decimal_value :: "string \<Rightarrow> nat" where
  "decimal_value s = foldl (\<lambda>a c. 10 * a + digit_val c) 0 s"

definition py_int :: "string \<Rightarrow> error + int" where
  "py_int s =
     (if s \<noteq> [] \<and> list_all is_decimal s \<and> length s \<le> int_max_str_digits
      then Inr (int (decimal_value s))
      else Inl ValueError)"

text \<open>
  \<open>str.upper\<close> leaves the range: the micro sign becomes U+039C, y with diaeresis becomes
  U+0178 and sharp s becomes the two letters SS. Its result is therefore a list of code
  points.
\<close>

definition upper_char :: "char \<Rightarrow> nat list" where
  "upper_char c =
     (let n = codepoint c
      in if 97 \<le> n \<and> n \<le> 122 then [n - 32]
         else if n = 181 then [924]
         else if n = 223 then [83, 83]
         else if 224 \<le> n \<and> n \<le> 254 \<and> n \<noteq> 247 then [n - 32]
         else if n = 255 then [376]
         else [n])"

definition upper :: "string \<Rightarrow> nat list" where
  "upper s = concat (map upper_char s)"

text \<open>\<open>sub in s\<close> on strings: \<open>sub\<close> occurs in \<open>s\<close> as a contiguous piece.\<close>

fun str_in :: "'a list \<Rightarrow> 'a list \<Rightarrow> bool" where
  "str_in sub [] = (sub = [])"
| "str_in sub (c # cs) = (prefix sub (c # cs) \<or> str_in sub cs)"

text \<open>
  \<open>s.split(sep, 1)\<close> with a one-character separator: at most one split, at the first
  occurrence; a string without the separator comes back whole.
\<close>

definition split1 :: "char \<Rightarrow> string \<Rightarrow> string list" where
  "split1 sep s =
     (if sep \<in> set s
      then [takeWhile (\<lambda>c. c \<noteq> sep) s, tl (dropWhile (\<lambda>c. c \<noteq> sep) s)]
      else [s])"

text \<open>
  List slicing. An index of a slice is first brought into \<open>0..len\<close>: a negative index
  counts from the end and saturates at 0, a non-negative one saturates at \<open>len\<close>.
  \<open>slice_from xs i\<close> is \<open>xs[i:]\<close> and \<open>slice_range xs i j\<close> is \<open>xs[i:j]\<close>.
\<close>

definition slice_index :: "nat \<Rightarrow> int \<Rightarrow> nat" where
  "slice_index len i = (if i < 0 then nat (max (int len + i) 0) else min (nat i) len)"

definition slice_from :: "'a list \<Rightarrow> int \<Rightarrow> 'a list" where
  "slice_from xs i = drop (slice_index (length xs) i) xs"

definition slice_range :: "'a list \<Rightarrow> int \<Rightarrow> int \<Rightarrow> 'a list" where
  "slice_range xs i j =
     (let a = slice_index (length xs) i; b = slice_index (length xs) j
      in take (b - a) (drop a xs))"

text \<open>
  A log record is a dictionary with string keys; the plugin reads the keys \<open>level\<close> and
  \<open>data\<close>, whose values are strings. \<open>dict_get d k dflt\<close> is \<open>d.get(k, dflt)\<close>.
\<close>

type_synonym log = "string \<rightharpoonup> string"

definition dict_get :: "('k \<rightharpoonup> 'v) \<Rightarrow> 'k \<Rightarrow> 'v \<Rightarrow> 'v" where
  "dict_get d k dflt = (case d k of None \<Rightarrow> dflt | Some v \<Rightarrow> v)"

section \<open>LogLevel\<close>

datatype LogLevel = ALL' | DEBUG | INFO | WARNING | ERROR

fun level_value :: "LogLevel \<Rightarrow> string" where
  "level_value ALL' = ''ALL''"
| "level_value DEBUG = ''DEBUG''"
| "level_value INFO = ''INFO''"
| "level_value WARNING = ''WARNING''"
| "level_value ERROR = ''ERROR''"

text \<open>Iterating over the enumeration visits the members in definition order.\<close>

definition members :: "LogLevel list" where
  "members = [ALL', DEBUG, INFO, WARNING, ERROR]"

text \<open>
  \<open>from_input\<close>: \<open>None\<close> as argument is Python's \<open>None\<close> (falsy, like the empty
  string); \<open>None\<close> as result is the \<open>return None\<close> after the loop.
\<close>

definition from_input :: "string option \<Rightarrow> LogLevel option" where
  "from_input v =
     (case v of
        None \<Rightarrow> Some ALL'
      | Some s \<Rightarrow>
          if s = [] then Some ALL'
          else find (\<lambda>item. codepoints (level_value item) = upper s) members)"

section \<open>LoggerPlugin\<close>

text \<open>
  \<open>_slice_logs\<close>. The two \<open>int\<close> calls can raise, so the result is a sum. The records
  themselves are never inspected, hence the list is polymorphic.
\<close>

definition slice_logs :: "'a list \<Rightarrow> string \<Rightarrow> int \<Rightarrow> error + 'a list" where
  "slice_logs logs limit default_limit =
     (let total = int (length logs)
      in if limit = [] then Inr (slice_from logs (- default_limit))
         else
           let limit = strip limit
           in if isdigit limit then
                (case py_int limit of
                   Inl e \<Rightarrow> Inl e
                 | Inr n \<Rightarrow> Inr (slice_from logs (- n)))
              else if CHR ''-'' \<in> set limit then
                (case split1 CHR ''-'' limit of
                   [left, right] \<Rightarrow>
                     (case (if isdigit left
                            then (case py_int left of Inl e \<Rightarrow> Inl e | Inr n \<Rightarrow> Inr (n - 1))
                            else Inr 0) of
                        Inl e \<Rightarrow> Inl e
                      | Inr start \<Rightarrow>
                          (case (if isdigit right then py_int right else Inr total) of
                             Inl e \<Rightarrow> Inl e
                           | Inr end' \<Rightarrow>
                               Inr (slice_range logs (max start 0) (min end' total))))
                 | _ \<Rightarrow> Inl ValueError)
              else Inr (slice_from logs (- default_limit)))"

text \<open>
  The regular expression \<open>\x1b\[[0-9;]*m\<close>. \<open>ansi_params\<close> runs after ESC and \<open>[\<close>
  have been read: it consumes the longest run of digits and semicolons and succeeds, with
  the text after the match, exactly when an \<open>m\<close> follows. Since \<open>m\<close> is not in the
  class, giving characters back never finds another match.
\<close>

definition is_param :: "char \<Rightarrow> bool" where
  "is_param c = (is_decimal c \<or> c = CHR '';'')"

fun ansi_params :: "string \<Rightarrow> string option" where
  "ansi_params [] = None"
| "ansi_params (c # cs) =
     (if is_param c then ansi_params cs
      else if c = CHR ''m'' then Some cs
      else None)"

fun ansi_match :: "string \<Rightarrow> string option" where
  "ansi_match (a # b # cs) = (if a = ESC \<and> b = CHR ''['' then ansi_params cs else None)"
| "ansi_match _ = None"

text \<open>
  \<open>ansi.sub("", s)\<close>: scan from the left; a match is dropped and the scan goes on after
  it, any other character is kept.
\<close>

function ansi_sub :: "string \<Rightarrow> string" where
  "ansi_sub [] = []"
| "ansi_sub (c # cs) =
     (case ansi_match (c # cs) of
        Some rest \<Rightarrow> ansi_sub rest
      | None \<Rightarrow> c # ansi_sub cs)"
  by pat_completeness auto
termination
proof (relation "measure length")
  show "wf (measure length)" by simp
next
  fix c :: char and cs rest :: string
  assume m: "ansi_match (c # cs) = Some rest"
  have params: "ansi_params s = Some r \<Longrightarrow> length r < length s" for s r
    by (induction s) (auto split: if_splits)
  have "length rest < length (c # cs)"
    using m by (cases cs) (auto split: if_splits dest: params)
  then show "(rest, c # cs) \<in> measure length" by simp
next
  fix c :: char and cs :: string
  show "(cs, c # cs) \<in> measure length" by simp
qed

definition format_log :: "log \<Rightarrow> string" where
  "format_log log =
     (let text = rstrip (ansi_sub (dict_get log ''data'' ''''));
          level = upper (dict_get log ''level'' ''UNKNOWN'')
      in if level = codepoints (level_value ERROR) then ''```'' @ [NL] @ text @ [NL] @ ''```''
         else if level = codepoints (level_value WARNING) then ''**'' @ text @ ''**''
         else if level = codepoints (level_value DEBUG) then text
         else ''> '' @ text)"

definition filter_logs_by_level :: "log list \<Rightarrow> LogLevel \<Rightarrow> log list" where
  "filter_logs_by_level logs level =
     (if level = ALL' then logs
      else filter (\<lambda>log. log ''level'' = Some (level_value level)) logs)"

text \<open>
  \<open>str.lower\<close>. The keyword search lowers whole texts, and lowering is not a map over
  the characters: a capital sigma becomes the final small sigma or the ordinary one
  according to its neighbours, and a character may become two. For the search the text
  is therefore modelled over the code points below 1024 (Latin, the combining marks and
  Greek), a 10-bit word per code point, and the result is a list of code points, since
  two capitals of that range have their small letter beyond it.

  Capital sigma (931) becomes the final sigma (962) when a cased character precedes it,
  case-ignorable characters skipped, and no cased character follows it, case-ignorable
  characters skipped; otherwise it becomes 963. \<open>cased\<close> is only ever asked of a
  character that is not case-ignorable, and lists the cased characters among those.
  \<open>seen\<close> holds the characters before the current one, the nearest first.
\<close>

type_synonym uchar = "10 word"

definition in_ranges :: "nat \<Rightarrow> (nat \<times> nat) list \<Rightarrow> bool" where
  "in_ranges n rs = list_ex (\<lambda>(lo, hi). lo \<le> n \<and> n \<le> hi) rs"

definition case_ignorable :: "uchar \<Rightarrow> bool" where
  "case_ignorable c = in_ranges (unat c)
     [
      (39, 39), (46, 46), (58, 58), (94, 94), (96, 96), (168, 168), (173, 173),
      (175, 175), (180, 180), (183, 184), (688, 879), (884, 885), (890, 890), (900, 901),
      (903, 903)]"

definition cased :: "uchar \<Rightarrow> bool" where
  "cased c = in_ranges (unat c)
     [
      (65, 90), (97, 122), (170, 170), (181, 181), (186, 186), (192, 214), (216, 246),
      (248, 442), (444, 447), (452, 659), (661, 687), (880, 883), (886, 887), (891, 893),
      (895, 895), (902, 902), (904, 906), (908, 908), (910, 929), (931, 1013), (1015, 1023)]"

definition lower_table :: "(nat \<times> nat list) list" where
  "lower_table =
     [
      (256, [257]), (258, [259]), (260, [261]), (262, [263]), (264, [265]), (266, [267]),
      (268, [269]), (270, [271]), (272, [273]), (274, [275]), (276, [277]), (278, [279]),
      (280, [281]), (282, [283]), (284, [285]), (286, [287]), (288, [289]), (290, [291]),
      (292, [293]), (294, [295]), (296, [297]), (298, [299]), (300, [301]), (302, [303]),
      (304, [105, 775]), (306, [307]), (308, [309]), (310, [311]), (313, [314]), (315, [316]),
      (317, [318]), (319, [320]), (321, [322]), (323, [324]), (325, [326]), (327, [328]),
      (330, [331]), (332, [333]), (334, [335]), (336, [337]), (338, [339]), (340, [341]),
      (342, [343]), (344, [345]), (346, [347]), (348, [349]), (350, [351]), (352, [353]),
      (354, [355]), (356, [357]), (358, [359]), (360, [361]), (362, [363]), (364, [365]),
      (366, [367]), (368, [369]), (370, [371]), (372, [373]), (374, [375]), (376, [255]),
      (377, [378]), (379, [380]), (381, [382]), (385, [595]), (386, [387]), (388, [389]),
      (390, [596]), (391, [392]), (393, [598]), (394, [599]), (395, [396]), (398, [477]),
      (399, [601]), (400, [603]), (401, [402]), (403, [608]), (404, [611]), (406, [617]),
      (407, [616]), (408, [409]), (412, [623]), (413, [626]), (415, [629]), (416, [417]),
      (418, [419]), (420, [421]), (422, [640]), (423, [424]), (425, [643]), (428, [429]),
      (430, [648]), (431, [432]), (433, [650]), (434, [651]), (435, [436]), (437, [438]),
      (439, [658]), (440, [441]), (444, [445]), (452, [454]), (453, [454]), (455, [457]),
      (456, [457]), (458, [460]), (459, [460]), (461, [462]), (463, [464]), (465, [466]),
      (467, [468]), (469, [470]), (471, [472]), (473, [474]), (475, [476]), (478, [479]),
      (480, [481]), (482, [483]), (484, [485]), (486, [487]), (488, [489]), (490, [491]),
      (492, [493]), (494, [495]), (497, [499]), (498, [499]), (500, [501]), (502, [405]),
      (503, [447]), (504, [505]), (506, [507]), (508, [509]), (510, [511]), (512, [513]),
      (514, [515]), (516, [517]), (518, [519]), (520, [521]), (522, [523]), (524, [525]),
      (526, [527]), (528, [529]), (530, [531]), (532, [533]), (534, [535]), (536, [537]),
      (538, [539]), (540, [541]), (542, [543]), (544, [414]), (546, [547]), (548, [549]),
      (550, [551]), (552, [553]), (554, [555]), (556, [557]), (558, [559]), (560, [561]),
      (562, [563]), (570, [11365]), (571, [572]), (573, [410]), (574, [11366]), (577, [578]),
      (579, [384]), (580, [649]), (581, [652]), (582, [583]), (584, [585]), (586, [587]),
      (588, [589]), (590, [591]), (880, [881]), (882, [883]), (886, [887]), (895, [1011]),
      (902, [940]), (904, [941]), (905, [942]), (906, [943]), (908, [972]), (910, [973]),
      (911, [974]), (913, [945]), (914, [946]), (915, [947]), (916, [948]), (917, [949]),
      (918, [950]), (919, [951]), (920, [952]), (921, [953]), (922, [954]), (923, [955]),
      (924, [956]), (925, [957]), (926, [958]), (927, [959]), (928, [960]), (929, [961]),
      (932, [964]), (933, [965]), (934, [966]), (935, [967]), (936, [968]), (937, [969]),
      (938, [970]), (939, [971]), (975, [983]), (984, [985]), (986, [987]), (988, [989]),
      (990, [991]), (992, [993]), (994, [995]), (996, [997]), (998, [999]), (1000, [1001]),
      (1002, [1003]), (1004, [1005]), (1006, [1007]), (1012, [952]), (1015, [1016]), (1017, [1010]),
      (1018, [1019]), (1021, [891]), (1022, [892]), (1023, [893])]"

definition lower_cp :: "uchar \<Rightarrow> nat list" where
  "lower_cp c =
     (let n = unat c
      in if n < 256
         then (if (65 \<le> n \<and> n \<le> 90) \<or> (192 \<le> n \<and> n \<le> 222 \<and> n \<noteq> 215)
               then [n + 32] else [n])
         else (case map_of lower_table n of Some l \<Rightarrow> l | None \<Rightarrow> [n]))"

definition final_sigma :: "uchar list \<Rightarrow> uchar list \<Rightarrow> bool" where
  "final_sigma seen after =
     (case dropWhile case_ignorable seen of
        [] \<Rightarrow> False
      | c # _ \<Rightarrow>
          cased c \<and>
          (case dropWhile case_ignorable after of [] \<Rightarrow> True | d # _ \<Rightarrow> \<not> cased d))"

fun lower_from :: "uchar list \<Rightarrow> uchar list \<Rightarrow> nat list" where
  "lower_from seen [] = []"
| "lower_from seen (c # cs) =
     (if unat c = 931 then [if final_sigma seen cs then 962 else 963] else lower_cp c)
     @ lower_from (c # seen) cs"

definition lower :: "uchar list \<Rightarrow> nat list" where
  "lower s = lower_from [] s"

text \<open>
  The selection step of \<open>on_log_search\<close>: the list \<open>matched\<close>. The records are
  those of the host, with their text over the wider range.
\<close>

type_synonym wide_log = "string \<rightharpoonup> uchar list"

definition log_search :: "wide_log list \<Rightarrow> uchar list \<Rightarrow> wide_log list" where
  "log_search logs keyword =
     (let keyword_lower = lower keyword
      in filter (\<lambda>log. str_in keyword_lower (lower (dict_get log ''data'' []))) logs)"

section \<open>Notions used to state the properties\<close>

text \<open>
  Case-insensitive comparison as the specification means it, on the strings of the
  model: two characters are the same letter when they are equal or one is a capital
  (A to Z, or an accented capital of Latin-1) and the other its small letter, 32 code
  points above; two strings are the same up to letter case when they have the same
  length and hold the same letters, position by position.
\<close>

definition is_capital :: "char \<Rightarrow> bool" where
  "is_capital c =
     (let n = codepoint c in (65 \<le> n \<and> n \<le> 90) \<or> (192 \<le> n \<and> n \<le> 222 \<and> n \<noteq> 215))"

definition same_letter :: "char \<Rightarrow> char \<Rightarrow> bool" where
  "same_letter a b =
     (a = b \<or> (is_capital a \<and> codepoint b = codepoint a + 32)
            \<or> (is_capital b \<and> codepoint a = codepoint b + 32))"

definition caseless_eq :: "string \<Rightarrow> string \<Rightarrow> bool" where
  "caseless_eq a b = list_all2 same_letter a b"

text \<open>A capital letter A to Z other than S: the letters of ERROR, WARNING and DEBUG.\<close>

definition plain_capital :: "char \<Rightarrow> bool" where
  "plain_capital d = (let k = codepoint d in 65 \<le> k \<and> k \<le> 90 \<and> k \<noteq> 83)"

text \<open>
  An escape sequence as the specification describes it: ESC, \<open>[\<close>, then zero or more
  digits or semicolons, then \<open>m\<close>.
\<close>

definition escape_seq :: "string \<Rightarrow> bool" where
  "escape_seq e =
     (case e of
        a # b # r \<Rightarrow>
          a = ESC \<and> b = CHR ''['' \<and> r \<noteq> [] \<and> last r = CHR ''m''
          \<and> list_all is_param (butlast r)
      | _ \<Rightarrow> False)"

section \<open>Code points and letter case\<close>

lemma codepoint_less: "codepoint c < 256"
  by (simp add: codepoint_def)

lemma codepoint_inj: "codepoint c = codepoint d \<longleftrightarrow> c = d"
  by (simp add: codepoint_def)

lemma codepoint_char_of: "n < 256 \<Longrightarrow> codepoint (char_of n) = n"
  by (simp add: codepoint_def)

lemma upper_same_letter:
  assumes "plain_capital d"
  shows "upper_char c = [codepoint d] \<longleftrightarrow> same_letter c d"
proof -
  let ?n = "codepoint c" and ?k = "codepoint d"
  from assms have k: "65 \<le> ?k" "?k \<le> 90" by (simp_all add: plain_capital_def Let_def)
  have "same_letter c d \<longleftrightarrow> ?n = ?k \<or> ?n = ?k + 32"
    using k by (auto simp: same_letter_def is_capital_def Let_def codepoint_inj)
  also have "\<dots> \<longleftrightarrow> upper_char c = [?k]"
    using k by (auto simp: upper_char_def Let_def)
  finally show ?thesis by simp
qed

lemma upper_char_two: "upper_char c = a # b # r \<Longrightarrow> a = 83"
  by (auto simp: upper_char_def Let_def split: if_splits)

lemma upper_char_ne: "upper_char c \<noteq> []"
  by (auto simp: upper_char_def Let_def)

text \<open>
  Comparing the upper-cased string with a name made of such capitals is the
  case-insensitive comparison. Sharp s, whose upper case is SS, is why S is left out.
\<close>

lemma upper_caseless:
  "list_all plain_capital name \<Longrightarrow> upper s = codepoints name \<longleftrightarrow> caseless_eq s name"
proof (induction s arbitrary: name)
  case Nil
  then show ?case by (auto simp: upper_def codepoints_def caseless_eq_def)
next
  case (Cons c cs)
  show ?case
  proof (cases name)
    case Nil
    then show ?thesis using upper_char_ne[of c]
      by (auto simp: upper_def codepoints_def caseless_eq_def)
  next
    case (Cons d ds)
    with Cons.prems have d: "plain_capital d" and ds: "list_all plain_capital ds" by simp_all
    have ih: "upper cs = codepoints ds \<longleftrightarrow> caseless_eq cs ds" using Cons.IH[OF ds] .
    have "upper_char c @ upper cs = codepoint d # codepoints ds
          \<longleftrightarrow> upper_char c = [codepoint d] \<and> upper cs = codepoints ds"
    proof (cases "upper_char c")
      case Nil then show ?thesis using upper_char_ne[of c] by simp
    next
      case (Cons a r)
      show ?thesis
      proof (cases r)
        case Nil with Cons show ?thesis by simp
      next
        case (Cons b r')
        with \<open>upper_char c = a # r\<close> have "a = 83" using upper_char_two by blast
        moreover have "codepoint d \<noteq> 83" using d by (simp add: plain_capital_def Let_def)
        ultimately show ?thesis using \<open>upper_char c = a # r\<close> Cons by auto
      qed
    qed
    then show ?thesis
      using ih upper_same_letter[OF d, of c] \<open>name = d # ds\<close>
      by (simp add: upper_def codepoints_def caseless_eq_def)
  qed
qed

lemma names_plain:
  "list_all plain_capital ''ERROR''"
  "list_all plain_capital ''WARNING''"
  "list_all plain_capital ''DEBUG''"
  by (simp_all add: plain_capital_def codepoint_def)

lemma upper_space: "is_space c \<Longrightarrow> upper_char c = [codepoint c]"
  by (auto simp: is_space_def upper_char_def Let_def)

lemma upper_mem: "c \<in> set s \<Longrightarrow> set (upper_char c) \<subseteq> set (upper s)"
  by (auto simp: upper_def)

lemma space_not_in_name: "is_space c \<Longrightarrow> codepoint c \<notin> set (codepoints (level_value l))"
  by (cases l) (auto simp: is_space_def codepoints_def codepoint_def Let_def)

lemma unknown_upper: "upper ''UNKNOWN'' = codepoints ''UNKNOWN''"
  by (simp add: upper_def upper_char_def codepoints_def codepoint_def)

section \<open>Stripping and slicing\<close>

lemma slice_from_zero: "slice_from xs 0 = xs"
  by (simp add: slice_from_def slice_index_def)

lemma slice_from_neg: "0 < n \<Longrightarrow> slice_from xs (- n) = drop (length xs - nat n) xs"
proof -
  assume n: "0 < n"
  have "nat (max (int (length xs) - n) 0) = length xs - nat n" using n by auto
  then show ?thesis using n by (simp add: slice_from_def slice_index_def)
qed

lemma slice_range_nonneg:
  "0 \<le> i \<Longrightarrow> 0 \<le> j \<Longrightarrow> slice_range xs i j = drop (nat i) (take (nat j) xs)"
  by (auto simp: slice_range_def slice_index_def Let_def drop_take min_def)

lemma dash_not_digit: "\<not> char_isdigit CHR ''-''"
  by (simp add: char_isdigit_def codepoint_def)

lemma isdigit_no_dash: "isdigit s \<Longrightarrow> CHR ''-'' \<notin> set s"
  using dash_not_digit by (auto simp: isdigit_def list_all_iff)

lemma decimal_isdigit: "is_decimal c \<Longrightarrow> char_isdigit c"
  by (simp add: is_decimal_def char_isdigit_def Let_def)

lemma py_int_isdigit: "py_int s = Inr n \<Longrightarrow> isdigit s"
  by (auto simp: py_int_def isdigit_def list_all_iff decimal_isdigit split: if_splits)

lemma strip_Nil: "strip [] = []"
  by (simp add: strip_def)

lemma strip_spaces: "list_all is_space s \<Longrightarrow> strip s = []"
proof -
  assume "list_all is_space s"
  then have d: "dropWhile is_space s = []" by (simp add: list_all_iff dropWhile_eq_Nil_conv)
  show ?thesis by (simp only: strip_def d rev.simps dropWhile.simps)
qed

lemma dropWhile_front_kept:
  "xs = [] \<or> \<not> P (hd xs) \<Longrightarrow>
   dropWhile P (rev (dropWhile P (rev xs))) = rev (dropWhile P (rev xs))"
proof (cases "rev (dropWhile P (rev xs))")
  case Nil then show ?thesis by (simp only: dropWhile.simps)
next
  case (Cons y ys)
  assume a: "xs = [] \<or> \<not> P (hd xs)"
  from Cons have ne: "xs \<noteq> []" by auto
  have "rev xs = takeWhile P (rev xs) @ dropWhile P (rev xs)" by simp
  then have "xs = rev (dropWhile P (rev xs)) @ rev (takeWhile P (rev xs))"
    by (metis rev_append rev_rev_ident)
  with Cons have "hd xs = y" by (metis append_Cons list.sel(1))
  with a ne have "\<not> P y" by simp
  with Cons show ?thesis by simp
qed

lemma dropWhile_head: "dropWhile P s = [] \<or> \<not> P (hd (dropWhile P s))"
  by (metis hd_dropWhile)

lemma strip_idem: "strip (strip s) = strip s"
proof -
  let ?t = "dropWhile is_space s"
  have "dropWhile is_space (rev (dropWhile is_space (rev ?t))) = rev (dropWhile is_space (rev ?t))"
    by (rule dropWhile_front_kept) (rule dropWhile_head)
  then show ?thesis by (simp add: strip_def)
qed

lemma split1_parts:
  assumes "sep \<in> set s"
  shows "\<exists>l r. split1 sep s = [l, r] \<and> s = l @ sep # r \<and> sep \<notin> set l"
proof -
  let ?l = "takeWhile (\<lambda>c. c \<noteq> sep) s" and ?d = "dropWhile (\<lambda>c. c \<noteq> sep) s"
  from assms have "?d \<noteq> []" by (auto simp: dropWhile_eq_Nil_conv)
  moreover have "hd ?d = sep" using \<open>?d \<noteq> []\<close> hd_dropWhile[of "\<lambda>c. c \<noteq> sep" s] by auto
  ultimately have "?d = sep # tl ?d" by (metis list.collapse)
  then have "s = ?l @ sep # tl ?d" by (metis takeWhile_dropWhile_id)
  moreover have "sep \<notin> set ?l" by (auto dest: set_takeWhileD)
  ultimately show ?thesis using assms by (auto simp: split1_def)
qed

section \<open>The slice selector\<close>

lemma slice_logs_strip: "slice_logs logs limit d = slice_logs logs (strip limit) d"
proof (cases "limit = []")
  case True then show ?thesis by (simp add: strip_Nil)
next
  case False
  show ?thesis
  proof (cases "strip limit = []")
    case True
    with False show ?thesis by (simp add: slice_logs_def isdigit_def Let_def)
  next
    case ne: False
    with False show ?thesis by (simp add: slice_logs_def strip_idem Let_def)
  qed
qed

lemma slice_logs_fallback:
  assumes "limit = [] \<or> (\<not> isdigit (strip limit) \<and> CHR ''-'' \<notin> set (strip limit))"
  shows "slice_logs logs limit d = Inr (slice_from logs (- d))"
  using assms by (auto simp: slice_logs_def Let_def)

lemma slice_logs_count:
  assumes "py_int (strip limit) = Inr n"
  shows "slice_logs logs limit d = Inr (slice_from logs (- n))"
proof -
  from assms have "isdigit (strip limit)" by (rule py_int_isdigit)
  moreover from this have "limit \<noteq> []" by (auto simp: isdigit_def strip_Nil)
  ultimately show ?thesis using assms by (simp add: slice_logs_def Let_def)
qed

text \<open>
  A positive count \<open>N\<close> that \<open>int\<close> accepts, possibly padded with whitespace,
  selects the last \<open>N\<close> records, and all of them when there are fewer.
\<close>

lemma slice_logs_last_n:
  assumes "py_int (strip limit) = Inr n" "0 < n"
  shows "slice_logs logs limit d = Inr (drop (length logs - nat n) logs)"
  using assms by (simp add: slice_logs_count slice_from_neg)

text \<open>
  The range rule, for parts that \<open>int\<close> accepts (no superscript digit, at most
  4300 digits) or that are no digit strings at all: \<open>left\<close> is a 1-based
  inclusive start, \<open>right\<close> a 0-based exclusive end, and a part that is not a digit
  string means "from the beginning" or "to the end".
\<close>

lemma slice_logs_range:
  assumes dash: "CHR ''-'' \<in> set (strip limit)"
    and sp: "split1 CHR ''-'' (strip limit) = [left, right]"
    and l: "isdigit left \<longrightarrow> list_all is_decimal left \<and> length left \<le> int_max_str_digits"
    and r: "isdigit right \<longrightarrow> list_all is_decimal right \<and> length right \<le> int_max_str_digits"
  shows "slice_logs logs limit d =
           Inr (drop (if isdigit left then decimal_value left - 1 else 0)
                  (take (if isdigit right then decimal_value right else length logs) logs))"
proof -
  from dash have ne: "limit \<noteq> []" by (auto simp: strip_Nil)
  from dash have nd: "\<not> isdigit (strip limit)" using isdigit_no_dash by blast
  have pl: "isdigit left \<Longrightarrow> py_int left = Inr (int (decimal_value left))"
    using l by (simp add: py_int_def isdigit_def)
  have pr: "isdigit right \<Longrightarrow> py_int right = Inr (int (decimal_value right))"
    using r by (simp add: py_int_def isdigit_def)
  show ?thesis
    using ne nd dash sp pl pr
    by (auto simp: slice_logs_def Let_def slice_range_nonneg nat_diff_distrib' max_def min_def)
qed

lemmas char_evals =
  strip_def is_space_def isdigit_def char_isdigit_def is_decimal_def codepoint_def
  split1_def py_int_def decimal_value_def digit_val_def int_max_str_digits_def

text \<open>A leading dash selects the first records: \<open>-2\<close> gives the first two.\<close>

lemma slice_logs_leading_dash: "slice_logs logs ''-2'' d = Inr (take 2 logs)"
proof -
  have "slice_logs logs ''-2'' d =
          Inr (drop (if isdigit [] then decimal_value [] - 1 else 0)
                 (take (if isdigit ''2'' then decimal_value ''2'' else length logs) logs))"
    by (rule slice_logs_range) (simp_all add: char_evals)
  then show ?thesis by (simp add: char_evals)
qed

text \<open>
  C1. Claim: a plain count \<open>N\<close> selects the last \<open>N\<close> records, and \<open>0\<close> selects none.
  The code takes \<open>logs[-0:]\<close> for the count \<open>0\<close>, which is the whole list: whatever the
  list and the default limit, the spec \<open>0\<close> returns every record.
\<close>

theorem slice_logs_zero_count: "slice_logs logs ''0'' default_limit = Inr logs"
proof -
  have "py_int (strip ''0'') = Inr 0" by (simp add: char_evals)
  then have "slice_logs logs ''0'' default_limit = Inr (slice_from logs (- 0))"
    by (rule slice_logs_count)
  then show ?thesis by (simp add: slice_from_zero)
qed

text \<open>
  C2. Claim: every spec with a dash returns the records from \<open>start\<close> to \<open>end\<close>.
  A superscript two passes \<open>isdigit\<close> and is then rejected by \<open>int\<close>: for the spec made
  of a superscript two, a dash and 3 the code raises ValueError instead of returning
  the first three records.
\<close>

theorem slice_logs_superscript_start:
  "slice_logs logs (CHR 0xB2 # ''-3'') default_limit = Inl ValueError"
  by (simp add: slice_logs_def char_evals)

text \<open>
  C3, as the claim states it, fails: \<open>1-2-3\<close> is not a range with exactly two parts, yet
  it does not fall back to the default limit. It is split at the first dash only, its
  right part \<open>2-3\<close> is not a digit string, and the whole list comes back.
\<close>

theorem slice_logs_two_dashes:
  "slice_logs [1, 2, 3 :: nat] ''1-2-3'' 1 = Inr [1, 2, 3]
   \<and> slice_logs [1, 2, 3 :: nat] ''1-2-3'' 1 \<noteq> Inr [3]"
  by (simp add: slice_logs_def slice_range_def slice_index_def char_evals)

text \<open>
  C3, amended. For a positive default limit, the empty spec returns the last
  \<open>default_limit\<close> records (all of them when there are no more than that, in their
  order), and so does every spec that, once trimmed, holds no dash and is not a digit
  string.
\<close>

theorem slice_logs_default:
  assumes "0 < default_limit"
    and "limit = [] \<or> (\<not> isdigit (strip limit) \<and> CHR ''-'' \<notin> set (strip limit))"
  shows "slice_logs logs limit default_limit = Inr (drop (length logs - nat default_limit) logs)
         \<and> (int (length logs) \<le> default_limit \<longrightarrow> slice_logs logs limit default_limit = Inr logs)"
  using assms by (auto simp: slice_logs_fallback slice_from_neg)

theorem slice_logs_default_witness:
  "(0::int) < 2
   \<and> \<not> isdigit (strip ''abc'') \<and> CHR ''-'' \<notin> set (strip ''abc'')
   \<and> slice_logs [1, 2, 3 :: nat] ''abc'' 2 = Inr [2, 3]"
proof -
  have h1: "(0::int) < 2" by simp
  have h2: "\<not> isdigit (strip ''abc'') \<and> CHR ''-'' \<notin> set (strip ''abc'')"
    by (simp add: char_evals)
  then have h3: "''abc'' = [] \<or> (\<not> isdigit (strip ''abc'') \<and> CHR ''-'' \<notin> set (strip ''abc''))"
    by blast
  show ?thesis
    using h1 h2 slice_logs_default [OF h1 h3, of "[1, 2, 3 :: nat]"] by simp
qed

text \<open>
  C10. The spec is read only after trimming: the result for a spec is the result for
  the trimmed spec; \<open>5\<close> padded with blanks selects the last five records like \<open>5\<close>;
  a non-empty spec of whitespace alone behaves like the empty spec, the default limit.
\<close>

theorem slice_logs_trimmed:
  "slice_logs logs limit d = slice_logs logs (strip limit) d
   \<and> slice_logs logs '' 5 '' d = slice_logs logs ''5'' d
   \<and> slice_logs logs '' 5 '' d = Inr (drop (length logs - 5) logs)
   \<and> (limit \<noteq> [] \<and> list_all is_space limit \<longrightarrow>
        slice_logs logs limit d = Inr (slice_from logs (- d))
        \<and> slice_logs logs limit d = slice_logs logs [] d)"
proof -
  have a: "slice_logs logs limit d = slice_logs logs (strip limit) d"
    by (rule slice_logs_strip)
  have s5: "strip '' 5 '' = ''5''" by (simp add: char_evals)
  have b: "slice_logs logs '' 5 '' d = slice_logs logs ''5'' d"
    using slice_logs_strip[of logs "'' 5 ''" d] by (simp only: s5)
  have "py_int (strip '' 5 '') = Inr 5" by (simp add: char_evals)
  then have c: "slice_logs logs '' 5 '' d = Inr (drop (length logs - 5) logs)"
    using slice_logs_last_n[of "'' 5 ''" 5 logs d] by simp
  have e: "slice_logs logs limit d = Inr (slice_from logs (- d))
           \<and> slice_logs logs limit d = slice_logs logs [] d"
    if "list_all is_space limit"
    using that by (simp add: slice_logs_fallback strip_spaces isdigit_def)
  from a b c e show ?thesis by blast
qed

theorem slice_logs_trimmed_witness:
  "''  '' \<noteq> [] \<and> list_all is_space ''  ''
   \<and> slice_logs [1, 2, 3 :: nat] ''  '' 2 = Inr [2, 3]
   \<and> slice_logs [1, 2, 3 :: nat] ''  '' 2 = slice_logs [1, 2, 3] [] 2"
proof -
  have h: "''  '' \<noteq> [] \<and> list_all is_space ''  ''" by (simp add: is_space_def codepoint_def)
  have sf: "slice_from [1, 2, 3 :: nat] (- 2) = [2, 3]"
    by (simp add: slice_from_def slice_index_def)
  have "''  '' \<noteq> [] \<and> list_all is_space ''  '' \<longrightarrow>
          slice_logs [1, 2, 3 :: nat] ''  '' 2 = Inr (slice_from [1, 2, 3] (- 2))
          \<and> slice_logs [1, 2, 3 :: nat] ''  '' 2 = slice_logs [1, 2, 3] [] 2"
    using slice_logs_trimmed [of "[1, 2, 3 :: nat]" "''  ''" 2] by blast
  with h show ?thesis by (simp only: sf) blast
qed

section \<open>The level filter\<close>

text \<open>
  C6. Filtering by ALL returns the list it was given, whatever that list is (the empty
  list included).
\<close>

theorem filter_logs_by_level_all: "filter_logs_by_level logs ALL' = logs"
  by (simp add: filter_logs_by_level_def)

text \<open>
  C5. For a concrete level, the filter keeps exactly the records whose \<open>level\<close> entry is
  the level's name, letter for letter, in their order; a record with another spelling or
  with no \<open>level\<close> entry is dropped.
\<close>

theorem filter_logs_by_level_concrete:
  assumes "level \<noteq> ALL'"
  shows "filter_logs_by_level logs level
           = filter (\<lambda>log. log ''level'' = Some (level_value level)) logs
         \<and> subseq (filter_logs_by_level logs level) logs
         \<and> (\<forall>log. log ''level'' \<noteq> Some (level_value level) \<longrightarrow>
               log \<notin> set (filter_logs_by_level logs level))"
  using assms by (simp add: filter_logs_by_level_def)

theorem filter_logs_by_level_concrete_witness:
  "ERROR \<noteq> ALL'
   \<and> filter_logs_by_level
       [[''level'' \<mapsto> ''ERROR''], [''level'' \<mapsto> ''error''], Map.empty,
        [''level'' \<mapsto> ''ERROR'', ''data'' \<mapsto> ''x'']] ERROR
     = [[''level'' \<mapsto> ''ERROR''], [''level'' \<mapsto> ''ERROR'', ''data'' \<mapsto> ''x'']]"
proof -
  have h: "ERROR \<noteq> ALL'" by simp
  show ?thesis
    using h filter_logs_by_level_concrete [OF h,
      of "[[''level'' \<mapsto> ''ERROR''], [''level'' \<mapsto> ''error''], Map.empty,
           [''level'' \<mapsto> ''ERROR'', ''data'' \<mapsto> ''x'']]"]
    by simp
qed

section \<open>The level classifier\<close>

lemma from_input_chain:
  "s \<noteq> [] \<Longrightarrow> from_input (Some s) =
     (if upper s = codepoints ''ALL'' then Some ALL'
      else if upper s = codepoints ''DEBUG'' then Some DEBUG
      else if upper s = codepoints ''INFO'' then Some INFO
      else if upper s = codepoints ''WARNING'' then Some WARNING
      else if upper s = codepoints ''ERROR'' then Some ERROR
      else None)"
  by (auto simp: from_input_def members_def)

lemma from_input_value: "from_input (Some (level_value l)) = Some l"
  by (cases l)
    (simp_all add: from_input_def members_def upper_def upper_char_def codepoints_def
      codepoint_def)

lemma from_input_invalid:
  "from_input v = None \<longleftrightarrow>
     (\<exists>s. v = Some s \<and> s \<noteq> [] \<and> (\<forall>l. upper s \<noteq> codepoints (level_value l)))"
proof (cases v)
  case None
  then show ?thesis by (simp add: from_input_def)
next
  case (Some s)
  show ?thesis
  proof (cases "s = []")
    case True
    with Some show ?thesis by (simp add: from_input_def)
  next
    case False
    have "l \<in> set members" for l by (cases l) (simp_all add: members_def)
    with Some False show ?thesis by (auto simp: from_input_def find_None_iff) metis
  qed
qed

lemma from_input_space:
  assumes "c \<in> set s" "is_space c"
  shows "from_input (Some s) = None"
proof -
  have "upper s \<noteq> codepoints (level_value l)" for l
  proof
    assume "upper s = codepoints (level_value l)"
    moreover have "codepoint c \<in> set (upper s)"
      using assms upper_mem[of c s] by (simp add: upper_space)
    ultimately show False using space_not_in_name[OF assms(2)] by metis
  qed
  moreover have "s \<noteq> []" using assms by auto
  ultimately show ?thesis by (simp add: from_input_invalid)
qed

text \<open>
  C8. \<open>from_input\<close> answers on every input. A missing or empty input is ALL. Any other
  input is upper-cased and compared with the five names for equality: the matching
  level is returned, and \<open>None\<close> exactly when no name is equal. Every name is
  classified as its own level, and an input holding a whitespace character, such as a
  name padded with blanks, is invalid.
\<close>

theorem from_input_classifies:
  "from_input None = Some ALL'
   \<and> from_input (Some []) = Some ALL'
   \<and> (s \<noteq> [] \<longrightarrow>
        from_input (Some s) =
          (if upper s = codepoints ''ALL'' then Some ALL'
           else if upper s = codepoints ''DEBUG'' then Some DEBUG
           else if upper s = codepoints ''INFO'' then Some INFO
           else if upper s = codepoints ''WARNING'' then Some WARNING
           else if upper s = codepoints ''ERROR'' then Some ERROR
           else None))
   \<and> from_input (Some (level_value l)) = Some l
   \<and> (from_input v = None \<longleftrightarrow>
        (\<exists>t. v = Some t \<and> t \<noteq> [] \<and> (\<forall>k. upper t \<noteq> codepoints (level_value k))))
   \<and> (c \<in> set s \<and> is_space c \<longrightarrow> from_input (Some s) = None)"
proof -
  have a: "from_input None = Some ALL'" by (simp add: from_input_def)
  have b: "from_input (Some []) = Some ALL'" by (simp add: from_input_def)
  show ?thesis
    by (intro conjI impI)
      (rule a, rule b, erule from_input_chain, rule from_input_value,
       rule from_input_invalid, elim conjE, erule (1) from_input_space)
qed

theorem from_input_classifies_witness:
  "''info'' \<noteq> [] \<and> from_input (Some ''info'') = Some INFO
   \<and> CHR '' '' \<in> set '' INFO'' \<and> is_space CHR '' '' \<and> from_input (Some '' INFO'') = None"
proof -
  have u: "upper ''info'' = codepoints ''INFO''"
    by (simp add: upper_def upper_char_def codepoints_def codepoint_def)
  have n: "codepoints ''INFO'' \<noteq> codepoints ''ALL''" "codepoints ''INFO'' \<noteq> codepoints ''DEBUG''"
    by (simp_all add: codepoints_def codepoint_def)
  have h: "CHR '' '' \<in> set '' INFO'' \<and> is_space CHR '' ''"
    by (simp add: is_space_def codepoint_def)
  have "from_input (Some ''info'') = Some INFO"
    using from_input_classifies [of "''info''" INFO None "CHR '' ''"] u n by simp
  moreover have "from_input (Some '' INFO'') = None"
    using from_input_classifies [of "'' INFO''" INFO None "CHR '' ''"] h by blast
  ultimately show ?thesis using h by simp
qed

section \<open>Keyword search\<close>

lemma str_in_sublist: "str_in sub s \<longleftrightarrow> sublist sub s"
  by (induction s) (auto simp: sublist_Cons_right)

lemmas lower_evals =
  lower_def lower_cp_def final_sigma_def cased_def case_ignorable_def in_ranges_def
  lower_table_def

lemma log_search_empty: "log_search logs [] = logs"
proof -
  have "\<And>s :: nat list. str_in [] s" by (simp add: str_in_sublist)
  then show ?thesis by (simp add: log_search_def lower_def)
qed

lemma log_search_subseq: "subseq (log_search logs keyword) logs"
  by (simp add: log_search_def)

lemma log_search_append:
  "log_search (logs @ more) keyword = log_search logs keyword @ log_search more keyword"
  by (simp add: log_search_def Let_def)

text \<open>
  A text without capital sigma is lowered character by character, so a record that
  holds the keyword as it is written is found, as long as neither holds a capital sigma.
\<close>

lemma lower_from_plain:
  "\<forall>c \<in> set s. unat c \<noteq> 931 \<Longrightarrow> lower_from seen s = concat (map lower_cp s)"
  by (induction s arbitrary: seen) simp_all

lemma sublist_concat_map:
  "sublist k d \<Longrightarrow> sublist (concat (map f k)) (concat (map f d))"
proof -
  assume "sublist k d"
  then obtain ps ss where "d = ps @ k @ ss" by (auto simp: sublist_def)
  then have "concat (map f d) = concat (map f ps) @ concat (map f k) @ concat (map f ss)"
    by simp
  then show ?thesis unfolding sublist_def by blast
qed

lemma log_search_verbatim:
  assumes "log \<in> set logs"
    and "sublist keyword (dict_get log ''data'' [])"
    and "\<forall>c \<in> set keyword. unat c \<noteq> 931"
    and "\<forall>c \<in> set (dict_get log ''data'' []). unat c \<noteq> 931"
  shows "log \<in> set (log_search logs keyword)"
  using assms
  by (simp add: log_search_def str_in_sublist lower_def lower_from_plain sublist_concat_map)

text \<open>
  C7. Claim: the search returns exactly the records whose data holds the keyword as a
  case-insensitive piece. The code compares the lowered keyword with the lowered data,
  and lowering a capital sigma depends on its neighbours: alone, as the keyword, it
  becomes the ordinary small sigma; at the end of the word alpha sigma in the data it
  becomes the final sigma. The record whose data is capital alpha, capital sigma holds
  the keyword capital sigma as it is written, and the search does not return it.
\<close>

theorem log_search_final_sigma:
  "log_search [[''data'' \<mapsto> [0x391, 0x3A3]]] [0x3A3] = []
   \<and> sublist [0x3A3 :: uchar] [0x391, 0x3A3]
   \<and> lower [0x3A3] = [963] \<and> lower [0x391, 0x3A3] = [945, 962]"
proof -
  have a: "lower [0x3A3] = [963]" by (simp add: lower_evals)
  have b: "lower [0x391, 0x3A3] = [945, 962]" by (simp add: lower_evals)
  have c: "sublist [0x3A3 :: uchar] [0x391, 0x3A3]"
    unfolding sublist_def by (rule exI[of _ "[0x391]"], rule exI[of _ "[]"]) simp
  have "log_search [[''data'' \<mapsto> [0x391, 0x3A3]]] [0x3A3] = []"
    by (simp add: log_search_def dict_get_def a b)
  with a b c show ?thesis by simp
qed

text \<open>The keyword FAIL finds \<open>fail\<close> in any spelling, and only there.\<close>

lemma log_search_example:
  "log_search
     [[''data'' \<mapsto> [116, 97, 115, 107, 32, 102, 97, 105, 108, 101, 100]],
      [''data'' \<mapsto> [111, 107]],
      [''data'' \<mapsto> [70, 65, 73, 76, 85, 82, 69]]]
     [70, 65, 73, 76]
   = [[''data'' \<mapsto> [116, 97, 115, 107, 32, 102, 97, 105, 108, 101, 100]],
      [''data'' \<mapsto> [70, 65, 73, 76, 85, 82, 69]]]"
proof -
  have "lower [70, 65, 73, 76] = [102, 97, 105, 108]"
    and "lower [116, 97, 115, 107, 32, 102, 97, 105, 108, 101, 100]
           = [116, 97, 115, 107, 32, 102, 97, 105, 108, 101, 100]"
    and "lower [111, 107] = [111, 107]"
    and "lower [70, 65, 73, 76, 85, 82, 69] = [102, 97, 105, 108, 117, 114, 101]"
    by (simp_all add: lower_def lower_cp_def)
  then show ?thesis by (simp add: log_search_def dict_get_def)
qed

section \<open>The formatter\<close>

lemma m_not_param: "\<not> is_param CHR ''m''"
  by (simp add: is_param_def is_decimal_def codepoint_def)

lemma ansi_params_run:
  "list_all is_param ps \<Longrightarrow> ansi_params (ps @ CHR ''m'' # rest) = Some rest"
  by (induction ps) (simp_all add: m_not_param)

lemma ansi_params_parts:
  "ansi_params s = Some r \<Longrightarrow> \<exists>ps. list_all is_param ps \<and> s = ps @ CHR ''m'' # r"
proof (induction s)
  case Nil
  then show ?case by simp
next
  case (Cons c cs)
  show ?case
  proof (cases "is_param c")
    case True
    with Cons.prems have "ansi_params cs = Some r" by simp
    then obtain ps where "list_all is_param ps" "cs = ps @ CHR ''m'' # r"
      using Cons.IH by blast
    with True have "list_all is_param (c # ps) \<and> c # cs = (c # ps) @ CHR ''m'' # r" by simp
    then show ?thesis by blast
  next
    case False
    with Cons.prems have "c = CHR ''m''" "cs = r" by (auto split: if_splits)
    then have "list_all is_param [] \<and> c # cs = [] @ CHR ''m'' # r" by simp
    then show ?thesis by blast
  qed
qed

lemma escape_seq_iff:
  "escape_seq e \<longleftrightarrow> (\<exists>ps. list_all is_param ps \<and> e = ESC # CHR ''['' # ps @ ''m'')"
proof
  assume "escape_seq e"
  then obtain r where e: "e = ESC # CHR ''['' # r" and r: "r \<noteq> []" "last r = CHR ''m''"
    "list_all is_param (butlast r)"
    by (auto simp: escape_seq_def split: list.splits)
  from r have "r = butlast r @ ''m''" by (metis append_butlast_last_id)
  with e r show "\<exists>ps. list_all is_param ps \<and> e = ESC # CHR ''['' # ps @ ''m''" by metis
next
  assume "\<exists>ps. list_all is_param ps \<and> e = ESC # CHR ''['' # ps @ ''m''"
  then show "escape_seq e" by (auto simp: escape_seq_def)
qed

text \<open>A match at the head of the text is an escape sequence, and the other way round.\<close>

lemma ansi_match_iff: "ansi_match s = Some r \<longleftrightarrow> (\<exists>e. escape_seq e \<and> s = e @ r)"
proof
  assume m: "ansi_match s = Some r"
  then obtain cs where s: "s = ESC # CHR ''['' # cs" and p: "ansi_params cs = Some r"
    by (cases s rule: ansi_match.cases) (auto split: if_splits)
  from p obtain ps where ps: "list_all is_param ps" "cs = ps @ CHR ''m'' # r"
    using ansi_params_parts by blast
  then have "escape_seq (ESC # CHR ''['' # ps @ ''m'')" by (auto simp: escape_seq_iff)
  moreover have "s = (ESC # CHR ''['' # ps @ ''m'') @ r" using s ps by simp
  ultimately show "\<exists>e. escape_seq e \<and> s = e @ r" by blast
next
  assume "\<exists>e. escape_seq e \<and> s = e @ r"
  then obtain ps where "list_all is_param ps" "s = ESC # CHR ''['' # ps @ CHR ''m'' # r"
    by (auto simp: escape_seq_iff)
  then show "ansi_match s = Some r" by (simp add: ansi_params_run)
qed

lemma ansi_sub_seq: "escape_seq e \<Longrightarrow> ansi_sub (e @ rest) = ansi_sub rest"
proof -
  assume e: "escape_seq e"
  then have m: "ansi_match (e @ rest) = Some rest" using ansi_match_iff by blast
  from e obtain c cs where "e @ rest = c # cs" by (cases e) (auto simp: escape_seq_def)
  with m show ?thesis by simp
qed

lemma ansi_sub_other:
  "\<forall>e r. escape_seq e \<longrightarrow> c # cs \<noteq> e @ r \<Longrightarrow> ansi_sub (c # cs) = c # ansi_sub cs"
proof -
  assume "\<forall>e r. escape_seq e \<longrightarrow> c # cs \<noteq> e @ r"
  then have "ansi_match (c # cs) = None"
    using ansi_match_iff[of "c # cs"] by (cases "ansi_match (c # cs)") auto
  then show ?thesis by simp
qed

text \<open>
  These three facts fix the scan on every text: a function that returns the empty text
  on the empty text, skips an escape sequence at the head and keeps any other first
  character is \<open>ansi_sub\<close>.
\<close>

lemma ansi_sub_determined:
  assumes nil: "f [] = []"
    and seq: "\<And>e rest. escape_seq e \<Longrightarrow> f (e @ rest) = f rest"
    and other: "\<And>c cs. \<forall>e r. escape_seq e \<longrightarrow> c # cs \<noteq> e @ r \<Longrightarrow> f (c # cs) = c # f cs"
  shows "f s = ansi_sub s"
proof (induction s rule: ansi_sub.induct)
  case 1
  show ?case by (simp add: nil)
next
  case (2 c cs)
  show ?case
  proof (cases "ansi_match (c # cs)")
    case None
    then have "\<forall>e r. escape_seq e \<longrightarrow> c # cs \<noteq> e @ r"
      using ansi_match_iff[of "c # cs"] by auto
    then have "f (c # cs) = c # f cs" by (rule other)
    with None 2 show ?thesis by simp
  next
    case (Some rest)
    then obtain e where "escape_seq e" "c # cs = e @ rest" using ansi_match_iff by blast
    then have "f (c # cs) = f rest" using seq by simp
    with Some 2 show ?thesis by simp
  qed
qed

lemma ansi_match_other: "ESC \<noteq> c \<Longrightarrow> ansi_match (c # cs) = None"
  by (cases cs) simp_all

lemma ansi_sub_keep: "ESC \<notin> set pre \<Longrightarrow> ansi_sub (pre @ s) = pre @ ansi_sub s"
  by (induction pre) (simp_all add: ansi_match_other)

lemma ansi_sub_plain: "ESC \<notin> set s \<Longrightarrow> ansi_sub s = s"
  using ansi_sub_keep[of s "[]"] by simp

lemma ansi_sub_removes:
  assumes "ESC \<notin> set pre" "list_all is_param ps"
  shows "ansi_sub (pre @ ESC # CHR ''['' # ps @ CHR ''m'' # post) = pre @ ansi_sub post"
  using assms by (simp add: ansi_sub_keep ansi_params_run)

lemma ansi_params_m: "ansi_params s = Some r \<Longrightarrow> CHR ''m'' \<in> set s"
  by (induction s) (auto split: if_splits)

lemma ansi_match_m: "ansi_match s = Some r \<Longrightarrow> CHR ''m'' \<in> set s"
  by (cases s rule: ansi_match.cases) (auto split: if_splits dest: ansi_params_m)

lemma ansi_sub_no_m: "CHR ''m'' \<notin> set s \<Longrightarrow> ansi_sub s = s"
proof (induction s)
  case Nil
  then show ?case by simp
next
  case (Cons c cs)
  then have "ansi_match (c # cs) = None"
    using ansi_match_m[of "c # cs"] by (cases "ansi_match (c # cs)") auto
  with Cons show ?case by simp
qed

lemma ansi_params_shorter: "ansi_params s = Some r \<Longrightarrow> length r < length s"
  by (induction s) (auto split: if_splits)

lemma ansi_match_shorter: "ansi_match s = Some r \<Longrightarrow> length r < length s"
  by (cases s rule: ansi_match.cases) (auto split: if_splits dest: ansi_params_shorter)

lemma ansi_sub_length: "length (ansi_sub s) \<le> length s"
proof (induction s rule: ansi_sub.induct)
  case 1
  then show ?case by simp
next
  case (2 c cs)
  show ?case
  proof (cases "ansi_match (c # cs)")
    case None
    with 2 show ?thesis by simp
  next
    case (Some rest)
    with 2 have "length (ansi_sub rest) \<le> length rest" by simp
    with Some show ?thesis using ansi_match_shorter[OF Some] by simp
  qed
qed

lemma rstrip_trailing:
  assumes "list_all is_space ws" "t = [] \<or> \<not> is_space (last t)"
  shows "rstrip (t @ ws) = t"
proof -
  have "\<And>x. x \<in> set (rev ws) \<Longrightarrow> is_space x"
    using assms(1) by (simp add: list_all_iff)
  then have "dropWhile is_space (rev ws @ rev t) = dropWhile is_space (rev t)"
    by (rule dropWhile_append2)
  moreover have "dropWhile is_space (rev t) = rev t"
    using assms(2) by (cases "rev t") (auto simp: last_rev)
  ultimately show ?thesis by (simp add: rstrip_def)
qed

lemma format_log_dispatch:
  "format_log log =
     (let text = rstrip (ansi_sub (dict_get log ''data'' []));
          level = dict_get log ''level'' ''UNKNOWN''
      in if caseless_eq level ''ERROR'' then ''```'' @ [NL] @ text @ [NL] @ ''```''
         else if caseless_eq level ''WARNING'' then ''**'' @ text @ ''**''
         else if caseless_eq level ''DEBUG'' then text
         else ''> '' @ text)"
  by (simp add: format_log_def Let_def upper_caseless[OF names_plain(1)]
      upper_caseless[OF names_plain(2)] upper_caseless[OF names_plain(3)])

lemma format_log_no_level:
  "log ''level'' = None \<Longrightarrow>
   format_log log = ''> '' @ rstrip (ansi_sub (dict_get log ''data'' []))"
  by (simp add: format_log_def dict_get_def unknown_upper codepoints_def codepoint_def Let_def)

lemma format_log_no_data:
  "log ''data'' = None \<Longrightarrow> format_log log = format_log (log(''data'' \<mapsto> []))"
  by (simp add: format_log_def dict_get_def)

lemmas format_evals =
  format_log_def dict_get_def rstrip_def is_space_def is_param_def is_decimal_def
  upper_def upper_char_def codepoints_def codepoint_def ESC_def

lemma format_log_error_example:
  "format_log [''level'' \<mapsto> ''ERROR'', ''data'' \<mapsto> ESC # ''[31mboom'' @ ESC # ''[0m'']
     = ''```'' @ [NL] @ ''boom'' @ [NL] @ ''```''"
  by (simp add: format_evals)

lemma format_log_warning_example:
  "format_log [''level'' \<mapsto> ''WARNING'', ''data'' \<mapsto> ''careful ''] = ''**careful**''"
  by (simp add: format_evals)

lemma ansi_sub_stray_example:
  "ansi_sub (ESC # ''[Kabc'' @ ESC # ''[31mred'' @ ESC # ''[0m'') = ESC # ''[Kabcred''"
  by (simp add: is_param_def is_decimal_def codepoint_def ESC_def)

text \<open>
  C4. The text of a record is its \<open>data\<close> with the escape sequences removed and the
  trailing whitespace dropped. The level, compared up to letter case, selects the
  markup: a fenced block for ERROR, bold for WARNING, the bare text for DEBUG, a block
  quote for anything else. Removal is one pass from the left that is fixed at every
  position: the empty text stays empty, an escape sequence (ESC, \<open>[\<close>, any run of
  digits and semicolons, \<open>m\<close>) at the head is dropped and the pass goes on behind it,
  and where no escape sequence begins the first character is kept and the pass goes on
  with the next, so a stray ESC stops nothing. Stripping removes a trailing run of
  whitespace and nothing more. The examples of the specification hold.
\<close>

theorem format_log_markup:
  "format_log log =
     (let text = rstrip (ansi_sub (dict_get log ''data'' []));
          level = dict_get log ''level'' ''UNKNOWN''
      in if caseless_eq level ''ERROR'' then ''```'' @ [NL] @ text @ [NL] @ ''```''
         else if caseless_eq level ''WARNING'' then ''**'' @ text @ ''**''
         else if caseless_eq level ''DEBUG'' then text
         else ''> '' @ text)
   \<and> ansi_sub [] = []
   \<and> (escape_seq e \<longrightarrow> ansi_sub (e @ rest) = ansi_sub rest)
   \<and> ((\<forall>e r. escape_seq e \<longrightarrow> c # cs \<noteq> e @ r) \<longrightarrow> ansi_sub (c # cs) = c # ansi_sub cs)
   \<and> (escape_seq e \<longleftrightarrow> (\<exists>qs. list_all is_param qs \<and> e = ESC # CHR ''['' # qs @ ''m''))
   \<and> (ESC \<notin> set pre \<and> list_all is_param ps \<longrightarrow>
        ansi_sub (pre @ ESC # CHR ''['' # ps @ CHR ''m'' # post) = pre @ ansi_sub post)
   \<and> (ESC \<notin> set pre \<longrightarrow> ansi_sub pre = pre)
   \<and> (list_all is_space ws \<and> (t = [] \<or> \<not> is_space (last t)) \<longrightarrow> rstrip (t @ ws) = t)
   \<and> format_log [''level'' \<mapsto> ''ERROR'', ''data'' \<mapsto> ESC # ''[31mboom'' @ ESC # ''[0m'']
       = ''```'' @ [NL] @ ''boom'' @ [NL] @ ''```''
   \<and> format_log [''level'' \<mapsto> ''WARNING'', ''data'' \<mapsto> ''careful ''] = ''**careful**''
   \<and> ansi_sub (ESC # ''[Kabc'' @ ESC # ''[31mred'' @ ESC # ''[0m'') = ESC # ''[Kabcred''"
proof -
  have n: "ansi_sub [] = []" by simp
  show ?thesis
    by (intro conjI impI)
      (rule format_log_dispatch, rule n, erule ansi_sub_seq, erule ansi_sub_other,
       rule escape_seq_iff, (elim conjE, erule (1) ansi_sub_removes),
       erule ansi_sub_plain, (elim conjE, erule (1) rstrip_trailing),
       rule format_log_error_example, rule format_log_warning_example,
       rule ansi_sub_stray_example)
qed

theorem format_log_markup_witness:
  "escape_seq (ESC # ''[0m'')
   \<and> ansi_sub ((ESC # ''[0m'') @ ''x'') = ansi_sub ''x''
   \<and> ansi_match (ESC # ''[K'') = None
   \<and> ansi_sub (ESC # ''[K'') = ESC # ansi_sub ''[K''
   \<and> ESC \<notin> set ''ab'' \<and> list_all is_param ''1;31''
   \<and> ansi_sub (''ab'' @ ESC # CHR ''['' # ''1;31'' @ CHR ''m'' # ''cd'') = ''ab'' @ ansi_sub ''cd''
   \<and> list_all is_space ''  '' \<and> \<not> is_space (last ''abcd'')
   \<and> rstrip (''abcd'' @ ''  '') = ''abcd''"
proof -
  note inst = format_log_markup [of Map.empty "ESC # ''[0m''" "''x''" ESC "''[K''" "''ab''"
      "''1;31''" "''cd''" "''  ''" "''abcd''"]
  have h0: "escape_seq (ESC # ''[0m'')"
    by (simp add: escape_seq_def is_param_def is_decimal_def codepoint_def)
  have nm: "ansi_match (ESC # ''[K'') = None"
    by (simp add: is_param_def is_decimal_def codepoint_def)
  then have h1: "\<forall>e r. escape_seq e \<longrightarrow> ESC # ''[K'' \<noteq> e @ r"
    using ansi_match_iff[of "ESC # ''[K''"] by auto
  have h2: "ESC \<notin> set ''ab'' \<and> list_all is_param ''1;31''"
    by (simp add: ESC_def is_param_def is_decimal_def codepoint_def)
  have h3: "list_all is_space ''  '' \<and> \<not> is_space (last ''abcd'')"
    by (simp add: is_space_def codepoint_def)
  have a: "ansi_sub ((ESC # ''[0m'') @ ''x'') = ansi_sub ''x''" using h0 inst by blast
  have b: "ansi_sub (ESC # ''[K'') = ESC # ansi_sub ''[K''" using h1 inst by blast
  have c: "ansi_sub (''ab'' @ ESC # CHR ''['' # ''1;31'' @ CHR ''m'' # ''cd'') = ''ab'' @ ansi_sub ''cd''"
    using h2 inst by blast
  have d: "rstrip (''abcd'' @ ''  '') = ''abcd''" using h3 inst by blast
  from h0 a nm b h2 c h3 d show ?thesis by blast
qed

text \<open>
  C9. Formatting always produces a string: the scan for escape sequences ends on every
  input (it never makes the text longer, and a text with no \<open>m\<close>, hence any unfinished
  sequence, is left as it is), and a missing key is answered by a default. A record
  with no \<open>data\<close> entry is formatted as if its data were empty; a record with no
  \<open>level\<close> entry gets the block-quote style; the empty record gives the bare quote
  marker; and every result has one of the four shapes.
\<close>

theorem format_log_total:
  "(log ''data'' = None \<longrightarrow> format_log log = format_log (log(''data'' \<mapsto> [])))
   \<and> (log ''level'' = None \<longrightarrow>
        format_log log = ''> '' @ rstrip (ansi_sub (dict_get log ''data'' [])))
   \<and> format_log Map.empty = ''> ''
   \<and> (CHR ''m'' \<notin> set s \<longrightarrow> ansi_sub s = s)
   \<and> length (ansi_sub s) \<le> length s
   \<and> (\<exists>text. text = rstrip (ansi_sub (dict_get log ''data'' []))
        \<and> (format_log log = ''```'' @ [NL] @ text @ [NL] @ ''```''
           \<or> format_log log = ''**'' @ text @ ''**''
           \<or> format_log log = text
           \<or> format_log log = ''> '' @ text))"
proof -
  have e: "format_log Map.empty = ''> ''"
    using format_log_no_level[of Map.empty] by (simp add: dict_get_def rstrip_def)
  have f: "\<exists>text. text = rstrip (ansi_sub (dict_get log ''data'' []))
        \<and> (format_log log = ''```'' @ [NL] @ text @ [NL] @ ''```''
           \<or> format_log log = ''**'' @ text @ ''**''
           \<or> format_log log = text
           \<or> format_log log = ''> '' @ text)"
    by (simp add: format_log_def Let_def)
  show ?thesis
    by (intro conjI impI)
      (erule format_log_no_data, erule format_log_no_level, rule e, erule ansi_sub_no_m,
       rule ansi_sub_length, rule f)
qed

theorem format_log_total_witness:
  "[''data'' \<mapsto> ESC # ''[31''] ''level'' = None
   \<and> CHR ''m'' \<notin> set (ESC # ''[31'')
   \<and> format_log [''data'' \<mapsto> ESC # ''[31''] = ''> '' @ ESC # ''[31''
   \<and> [''level'' \<mapsto> ''DEBUG''] ''data'' = None
   \<and> format_log [''level'' \<mapsto> ''DEBUG''] = format_log [''level'' \<mapsto> ''DEBUG'', ''data'' \<mapsto> []]"
proof -
  let ?log = "[''data'' \<mapsto> ESC # ''[31'']" and ?s = "ESC # ''[31''"
  have h1: "?log ''level'' = None" by simp
  have h2: "CHR ''m'' \<notin> set ?s" by (simp add: ESC_def)
  have h3: "[''level'' \<mapsto> ''DEBUG''] ''data'' = None" by simp
  have r: "rstrip ?s = ?s" by (simp add: rstrip_def is_space_def codepoint_def)
  have "format_log ?log = ''> '' @ rstrip (ansi_sub (dict_get ?log ''data'' []))"
    using h1 format_log_total [of ?log ?s] by blast
  moreover have "ansi_sub ?s = ?s"
    using h2 format_log_total [of ?log ?s] by blast
  ultimately have a: "format_log ?log = ''> '' @ ?s" by (simp add: dict_get_def r)
  have b: "format_log [''level'' \<mapsto> ''DEBUG''] = format_log [''level'' \<mapsto> ''DEBUG'', ''data'' \<mapsto> []]"
    using h3 format_log_total [of "[''level'' \<mapsto> ''DEBUG'']" ?s] by blast
  from h1 h2 h3 a b show ?thesis by blast
qed

end
